theory Spec2Isabelle
  imports Main
begin

section \<open>Values, exceptions and outcomes of library calls\<close>

text \<open>
  The module \<^verbatim>\<open>global_shortcuts.py\<close> holds two classes: \<^verbatim>\<open>DictationService\<close>, the object
  published on the session bus, and \<^verbatim>\<open>GlobalShortcuts\<close>, the controller that owns the
  thread running the D-Bus main loop. The embedding keeps the objects in an explicit
  store, passes the state of the process through every method, and takes the outcome of
  every call into \<^verbatim>\<open>threading\<close>, \<^verbatim>\<open>pydbus\<close> and \<^verbatim>\<open>GLib\<close> as an argument.
\<close>

text \<open>
  A callable is opaque: only the identity of the object and its truth value matter. A
  function, a lambda and a bound method are truthy; an instance of a class with
  \<^verbatim>\<open>__call__\<close> has the truth value that its \<^verbatim>\<open>__bool__\<close> or \<^verbatim>\<open>__len__\<close> gives.
\<close>

datatype callable = Callable nat bool

fun truthy :: "callable \<Rightarrow> bool" where
  "truthy (Callable i b) = b"

text \<open>An exception object (an instance of \<^verbatim>\<open>Exception\<close>), with the text of \<^verbatim>\<open>str(e)\<close>.\<close>

datatype exn = Exception string

fun str :: "exn \<Rightarrow> string" where
  "str (Exception m) = m"

text \<open>
  The exceptions that are not instances of \<^verbatim>\<open>Exception\<close>, which \<^verbatim>\<open>except Exception\<close> lets
  through and a bare \<^verbatim>\<open>except:\<close> catches. \<^verbatim>\<open>KeyboardInterrupt\<close> reaches the main thread
  while it waits in a blocking call.
\<close>

datatype base_exn = KeyboardInterrupt | SystemExit

text \<open>How a Python call ends: with a value, or with an exception reaching the caller.\<close>

datatype 'a result = Returned 'a | Raised exn | RaisedBase base_exn

text \<open>How a call into a library ends; the library itself is not modelled.\<close>

datatype outcome = Ok | Fails exn

fun raises :: "outcome \<Rightarrow> bool" where
  "raises Ok = False"
| "raises (Fails e) = True"

text \<open>The Python values that the status methods return.\<close>

datatype pyval = PyBool bool | PyNone | PyStr string

section \<open>Objects and the state of the process\<close>

text \<open>
  A \<^verbatim>\<open>threading.Thread\<close> object. Its target is either the bound method
  \<^verbatim>\<open>_dbus_loop_thread\<close> of the controller or a handler. A started thread stands at a
  program point of its target; the points of \<^verbatim>\<open>_dbus_loop_thread\<close> are its statements
  (lines 51, 52, 54, 56, 57 and 58), a handler is a single opaque point. Line 52 has two
  points: at the first the right-hand side \<^verbatim>\<open>DictationService(self.callback)\<close> is
  evaluated, at the second its value, which the thread holds in the meantime, is stored
  into \<^verbatim>\<open>self.dbus_service\<close>.
\<close>

datatype target = DbusLoopThread | Handler callable

datatype pc =
    AtSessionBus | AtService | AtStoreService nat | AtPublish | AtMainLoop | AtPrint | AtRun
  | AtHandler

datatype tstate = Unstarted | Running pc | Finished

record thread =
  target :: target
  daemon :: bool
  tstate :: tstate

record DictationService =
  handler :: "callable option"

text \<open>
  The fields of \<^verbatim>\<open>GlobalShortcuts\<close>. The three D-Bus components are references into the
  store (\<open>None\<close> is Python's \<^verbatim>\<open>None\<close>): the service and the thread are indices into the
  lists of the state, a main loop is known by its number only.
\<close>

record GlobalShortcuts =
  primary_key :: string
  callback :: "callable option"
  dbus_service :: "nat option"
  dbus_loop :: "nat option"
  listener_thread :: "nat option"
  is_running :: bool

text \<open>
  The state of the process: the controller, the store of service and thread objects, the
  number of main loops made, the service objects that a \<^verbatim>\<open>bus.publish\<close> call has exported
  on the bus (nothing in the module takes one back), and what was printed.
\<close>

record world =
  self :: GlobalShortcuts
  services :: "DictationService list"
  threads :: "thread list"
  loops :: nat
  published :: "nat list"
  stdout :: "string list"
  stderr :: "string list"

definition print :: "string \<Rightarrow> world \<Rightarrow> world" where
  "print line w = w\<lparr>stdout := stdout w @ [line]\<rparr>"

definition set_is_running :: "bool \<Rightarrow> world \<Rightarrow> world" where
  "set_is_running b w = w\<lparr>self := (self w)\<lparr>is_running := b\<rparr>\<rparr>"

definition set_tstate :: "nat \<Rightarrow> tstate \<Rightarrow> world \<Rightarrow> world" where
  "set_tstate tid s w = w\<lparr>threads := (threads w)[tid := (threads w ! tid)\<lparr>tstate := s\<rparr>]\<rparr>"

text \<open>\<^verbatim>\<open>Thread.is_alive()\<close>: true from the start of the thread until it ends.\<close>

definition is_alive :: "world \<Rightarrow> nat \<Rightarrow> bool" where
  "is_alive w tid =
     (tid < length (threads w) \<and>
      (case tstate (threads w ! tid) of Running p \<Rightarrow> True | Unstarted \<Rightarrow> False | Finished \<Rightarrow> False))"

section \<open>DictationService\<close>

text \<open>
  \<^verbatim>\<open>Trigger\<close> (lines 24 to 29). The two outcomes are those of \<^verbatim>\<open>threading.Thread(...)\<close>
  and of \<^verbatim>\<open>callback_thread.start()\<close>; nothing in the method catches them. The test of
  line 26 is a test of the truth value of the handler: \<^verbatim>\<open>None\<close> is falsy, and so is a
  callable object whose truth value is false.
\<close>

definition Trigger :: "outcome \<Rightarrow> outcome \<Rightarrow> DictationService \<Rightarrow> world \<Rightarrow> world \<times> unit result" where
  "Trigger created started svc w =
     (let w1 = print ''D-Bus trigger received'' w in
      case handler svc of
        None \<Rightarrow> (w1, Returned ())
      | Some h \<Rightarrow>
          (if \<not> truthy h then (w1, Returned ())
           else
             (case created of
                Fails e \<Rightarrow> (w1, Raised e)
              | Ok \<Rightarrow>
                  (let tid = length (threads w1);
                       w2 = w1\<lparr>threads := threads w1 @
                              [\<lparr>target = Handler h, daemon = True, tstate = Unstarted\<rparr>]\<rparr>
                   in case started of
                        Fails e \<Rightarrow> (w2, Raised e)
                      | Ok \<Rightarrow> (set_tstate tid (Running AtHandler) w2, Returned ())))))"

section \<open>GlobalShortcuts\<close>

text \<open>\<^verbatim>\<open>__init__\<close> (lines 35 to 46), in a process with no other object yet.\<close>

definition init :: "string \<Rightarrow> callable option \<Rightarrow> string option \<Rightarrow> world" where
  "init key cb device_path =
     \<lparr>self = \<lparr>primary_key = key, callback = cb, dbus_service = None, dbus_loop = None,
              listener_thread = None, is_running = False\<rparr>,
      services = [], threads = [], loops = 0, published = [],
      stdout = [''Global shortcuts initialized with key: '' @ key,
                ''Using D-Bus for shortcut handling''],
      stderr = []\<rparr>"

text \<open>The \<^verbatim>\<open>except\<close> branch of \<^verbatim>\<open>_dbus_loop_thread\<close> (lines 59 to 63); the thread ends.\<close>

definition dbus_loop_failed :: "nat \<Rightarrow> exn \<Rightarrow> world \<Rightarrow> world" where
  "dbus_loop_failed tid e w =
     set_tstate tid Finished
       (set_is_running False
          ((print (''Error in D-Bus loop: '' @ str e) w)
             \<lparr>stderr := stderr w @ [''Traceback (most recent call last): '' @ str e]\<rparr>))"

text \<open>
  \<^verbatim>\<open>_dbus_loop_thread\<close> (lines 48 to 63), one program point at a time. The outcome is
  that of the library call of the statement: \<^verbatim>\<open>SessionBus()\<close>, \<^verbatim>\<open>bus.publish(...)\<close> and
  \<^verbatim>\<open>self.dbus_loop.run()\<close>, which returns once the loop was quit. The other statements
  have no call that fails. At \<open>AtService\<close> the thread reads \<^verbatim>\<open>self.callback\<close> and makes the
  service object with it; the store into \<^verbatim>\<open>self.dbus_service\<close> is the next step, and any
  other thread may run between the two. Line 54 publishes the object that
  \<^verbatim>\<open>self.dbus_service\<close> refers to when it runs.
\<close>

fun dbus_loop_thread :: "nat \<Rightarrow> pc \<Rightarrow> outcome \<Rightarrow> world \<Rightarrow> world" where
  "dbus_loop_thread tid AtSessionBus oc w =
     (case oc of Ok \<Rightarrow> set_tstate tid (Running AtService) w
               | Fails e \<Rightarrow> dbus_loop_failed tid e w)"
| "dbus_loop_thread tid AtService oc w =
     set_tstate tid (Running (AtStoreService (length (services w))))
       (w\<lparr>services := services w @ [\<lparr>handler = callback (self w)\<rparr>]\<rparr>)"
| "dbus_loop_thread tid (AtStoreService sid) oc w =
     set_tstate tid (Running AtPublish) (w\<lparr>self := (self w)\<lparr>dbus_service := Some sid\<rparr>\<rparr>)"
| "dbus_loop_thread tid AtPublish oc w =
     (case oc of
        Ok \<Rightarrow>
          set_tstate tid (Running AtMainLoop)
            (w\<lparr>published := published w @
                 (case dbus_service (self w) of None \<Rightarrow> [] | Some sid \<Rightarrow> [sid])\<rparr>)
      | Fails e \<Rightarrow> dbus_loop_failed tid e w)"
| "dbus_loop_thread tid AtMainLoop oc w =
     set_tstate tid (Running AtPrint)
       (w\<lparr>loops := Suc (loops w), self := (self w)\<lparr>dbus_loop := Some (loops w)\<rparr>\<rparr>)"
| "dbus_loop_thread tid AtPrint oc w =
     set_tstate tid (Running AtRun)
       (print ''D-Bus service started: com.hyprwhspr.Dictation at /com/hyprwhspr/Dictation'' w)"
| "dbus_loop_thread tid AtRun oc w =
     (case oc of Ok \<Rightarrow> set_tstate tid Finished w
               | Fails e \<Rightarrow> dbus_loop_failed tid e w)"
| "dbus_loop_thread tid AtHandler oc w = w"

text \<open>
  One step of any thread of the process. A handler runs on its own thread and is opaque:
  whether it returns or raises, its thread ends and nothing of the controller is touched.
\<close>

definition thread_step :: "nat \<Rightarrow> outcome \<Rightarrow> world \<Rightarrow> world" where
  "thread_step tid oc w =
     (if tid < length (threads w) then
        (case tstate (threads w ! tid) of
           Running p \<Rightarrow>
             (case target (threads w ! tid) of
                DbusLoopThread \<Rightarrow> dbus_loop_thread tid p oc w
              | Handler h \<Rightarrow> set_tstate tid Finished w)
         | Unstarted \<Rightarrow> w
         | Finished \<Rightarrow> w)
      else w)"

text \<open>
  Some steps of one thread, taken while another thread is between two of its statements
  or waits; each comes with the outcome of its library call.
\<close>

definition thread_steps :: "nat \<Rightarrow> outcome list \<Rightarrow> world \<Rightarrow> world" where
  "thread_steps tid ocs w = foldl (\<lambda>v oc. thread_step tid oc v) w ocs"

text \<open>
  The first two statements of the \<^verbatim>\<open>try\<close> block of \<^verbatim>\<open>start\<close> (lines 71 and 72): the
  thread object is made and stored, then started. The outcomes are those of
  \<^verbatim>\<open>threading.Thread(...)\<close> and of \<^verbatim>\<open>self.listener_thread.start()\<close>.
\<close>

definition start_spawn :: "outcome \<Rightarrow> outcome \<Rightarrow> world \<Rightarrow> world \<times> unit result" where
  "start_spawn created started w =
     (case created of
        Fails e \<Rightarrow> (w, Raised e)
      | Ok \<Rightarrow>
          (let tid = length (threads w);
               w1 = w\<lparr>threads := threads w @
                      [\<lparr>target = DbusLoopThread, daemon = True, tstate = Unstarted\<rparr>],
                    self := (self w)\<lparr>listener_thread := Some tid\<rparr>\<rparr>
           in case started of
                Fails e \<Rightarrow> (w1, Raised e)
              | Ok \<Rightarrow> (set_tstate tid (Running AtSessionBus) w1, Returned ())))"

text \<open>
  \<^verbatim>\<open>start\<close> (lines 65 to 80). The new thread runs from line 72 on: \<open>early\<close> holds the
  steps it takes before the caller reaches line 73, none when the caller is faster. Steps
  it takes later are steps after the call.
\<close>

definition start :: "outcome \<Rightarrow> outcome \<Rightarrow> outcome list \<Rightarrow> world \<Rightarrow> world \<times> bool result" where
  "start created started early w =
     (if is_running (self w) then (w, Returned True)
      else
        (case start_spawn created started w of
           (w1, Returned u) \<Rightarrow>
             (let w2 = thread_steps (length (threads w)) early w1 in
              (print (''Global shortcuts started, listening for '' @ primary_key (self w2) @
                      '' via D-Bus'')
                 (set_is_running True w2),
               Returned True))
         | (w1, Raised e) \<Rightarrow>
             (print (''Failed to start global shortcuts: '' @ str e) w1, Returned False)
         | (w1, RaisedBase b) \<Rightarrow> (w1, RaisedBase b)))"

text \<open>
  \<^verbatim>\<open>self.dbus_loop.quit()\<close> under its guard (lines 88 and 89), with the outcome of the
  call to GLib.
\<close>

definition loop_quit :: "outcome \<Rightarrow> world \<Rightarrow> world \<times> unit result" where
  "loop_quit q w =
     (case dbus_loop (self w) of
        None \<Rightarrow> (w, Returned ())
      | Some l \<Rightarrow> (case q of Ok \<Rightarrow> (w, Returned ()) | Fails e \<Rightarrow> (w, Raised e)))"

text \<open>
  \<^verbatim>\<open>self.listener_thread.join(timeout=1.0)\<close> under its guard (lines 91 and 92). The
  call raises an error, or is interrupted while it waits (a \<^verbatim>\<open>KeyboardInterrupt\<close> in the
  main thread, as the module's own \<^verbatim>\<open>__main__\<close> block expects), or waits: while it waits
  the thread takes the steps given (any number of them, with the outcomes of its library
  calls), and the call returns whether or not the thread has ended by then.
\<close>

datatype join_outcome = JoinRaises exn | JoinInterrupted base_exn | JoinReturns "outcome list"

fun join_returns :: "join_outcome \<Rightarrow> bool" where
  "join_returns (JoinRaises e) = False"
| "join_returns (JoinInterrupted b) = False"
| "join_returns (JoinReturns ocs) = True"

text \<open>The guard of line 91: there is a thread object and it is alive.\<close>

definition join_called :: "world \<Rightarrow> bool" where
  "join_called w =
     (case listener_thread (self w) of None \<Rightarrow> False | Some tid \<Rightarrow> is_alive w tid)"

definition thread_join :: "join_outcome \<Rightarrow> world \<Rightarrow> world \<times> unit result" where
  "thread_join j w =
     (case listener_thread (self w) of
        None \<Rightarrow> (w, Returned ())
      | Some tid \<Rightarrow>
          (if is_alive w tid then
             (case j of
                JoinRaises e \<Rightarrow> (w, Raised e)
              | JoinInterrupted b \<Rightarrow> (w, RaisedBase b)
              | JoinReturns ocs \<Rightarrow> (thread_steps tid ocs w, Returned ()))
           else (w, Returned ())))"

text \<open>The \<^verbatim>\<open>try\<close> block of \<^verbatim>\<open>stop\<close> (lines 88 to 95).\<close>

definition stop_try :: "outcome \<Rightarrow> join_outcome \<Rightarrow> world \<Rightarrow> world \<times> unit result" where
  "stop_try q j w =
     (case loop_quit q w of
        (w1, Raised e) \<Rightarrow> (w1, Raised e)
      | (w1, RaisedBase b) \<Rightarrow> (w1, RaisedBase b)
      | (w1, Returned u) \<Rightarrow>
          (case thread_join j w1 of
             (w2, Raised e) \<Rightarrow> (w2, Raised e)
           | (w2, RaisedBase b) \<Rightarrow> (w2, RaisedBase b)
           | (w2, Returned u') \<Rightarrow>
               (print ''Global shortcuts stopped'' (set_is_running False w2), Returned ())))"

text \<open>
  \<^verbatim>\<open>stop\<close> (lines 82 to 98). Line 97 is \<^verbatim>\<open>except Exception\<close>: an error is caught and
  printed, an interrupt goes on to the caller.
\<close>

definition stop :: "outcome \<Rightarrow> join_outcome \<Rightarrow> world \<Rightarrow> world \<times> unit result" where
  "stop q j w =
     (if \<not> is_running (self w) then (w, Returned ())
      else
        (case stop_try q j w of
           (w1, Raised e) \<Rightarrow> (print (''Error stopping global shortcuts: '' @ str e) w1, Returned ())
         | (w1, RaisedBase b) \<Rightarrow> (w1, RaisedBase b)
         | (w1, Returned u) \<Rightarrow> (w1, Returned ())))"

text \<open>
  \<^verbatim>\<open>__del__\<close> (lines 126 to 131): \<^verbatim>\<open>stop()\<close> under a bare \<^verbatim>\<open>except:\<close>, which drops
  anything it raises.
\<close>

definition dunder_del :: "outcome \<Rightarrow> join_outcome \<Rightarrow> world \<Rightarrow> world \<times> unit result" where
  "dunder_del q j w =
     (case stop q j w of
        (w1, Raised e) \<Rightarrow> (w1, Returned ())
      | (w1, RaisedBase b) \<Rightarrow> (w1, Returned ())
      | (w1, Returned u) \<Rightarrow> (w1, Returned ()))"

text \<open>
  \<^verbatim>\<open>is_active\<close> (lines 100 to 102). Python's \<^verbatim>\<open>and\<close> gives back the first falsy operand,
  or the last one: \<^verbatim>\<open>False\<close> when the flag is down, \<^verbatim>\<open>None\<close> when there is no thread
  object, and the answer of \<^verbatim>\<open>is_alive()\<close> otherwise (a thread object is always truthy).
\<close>

definition is_active :: "world \<Rightarrow> pyval" where
  "is_active w =
     (if \<not> is_running (self w) then PyBool False
      else
        (case listener_thread (self w) of
           None \<Rightarrow> PyNone
         | Some tid \<Rightarrow> PyBool (is_alive w tid)))"

text \<open>
  \<^verbatim>\<open>set_callback\<close> (lines 104 to 108). The service is an object with neither
  \<^verbatim>\<open>__bool__\<close> nor \<^verbatim>\<open>__len__\<close>, so the test is a test against \<^verbatim>\<open>None\<close>; the assignment
  changes the one object that \<^verbatim>\<open>self.dbus_service\<close> refers to, in the store, where the
  bus finds it too.
\<close>

definition set_callback :: "callable option \<Rightarrow> world \<Rightarrow> world" where
  "set_callback cb w =
     (let w1 = w\<lparr>self := (self w)\<lparr>callback := cb\<rparr>\<rparr> in
      case dbus_service (self w1) of
        None \<Rightarrow> w1
      | Some sid \<Rightarrow> w1\<lparr>services := (services w1)[sid := (services w1 ! sid)\<lparr>handler := cb\<rparr>]\<rparr>)"

text \<open>\<^verbatim>\<open>update_shortcut\<close> (lines 110 to 115).\<close>

definition update_shortcut :: "string \<Rightarrow> world \<Rightarrow> world \<times> bool" where
  "update_shortcut new_key w =
     (print ''Remember to update your Hyprland bindings.conf accordingly''
        (print (''Updated shortcut to: '' @ new_key)
           (w\<lparr>self := (self w)\<lparr>primary_key := new_key\<rparr>\<rparr>)),
      True)"

text \<open>\<^verbatim>\<open>get_status\<close> (lines 117 to 124): the dict, in the order of its literal.\<close>

definition get_status :: "world \<Rightarrow> (string \<times> pyval) list" where
  "get_status w =
     [(''is_running'', PyBool (is_running (self w))),
      (''is_active'', is_active w),
      (''primary_key'', PyStr (primary_key (self w))),
      (''method'', PyStr ''dbus'')]"

section \<open>Histories of the process\<close>

text \<open>
  What can happen to a controller after its construction: a call of one of its methods
  by the application, a step of one of the threads (one program point of its target), or a
  \<^verbatim>\<open>Trigger\<close> call delivered by the bus to a service object of the store. Each is one
  step, and a history is a list of them; a step on a thread or a service that does not
  exist changes nothing.
\<close>

datatype event =
    CallStart outcome outcome "outcome list"
  | CallStop outcome join_outcome
  | CallDel outcome join_outcome
  | CallIsActive
  | CallSetCallback "callable option"
  | CallUpdateShortcut string
  | CallGetStatus
  | ThreadStep nat outcome
  | BusTrigger nat outcome outcome

fun step :: "world \<Rightarrow> event \<Rightarrow> world" where
  "step w (CallStart created started early) = fst (start created started early w)"
| "step w (CallStop q j) = fst (stop q j w)"
| "step w (CallDel q j) = fst (dunder_del q j w)"
| "step w CallIsActive = w"
| "step w (CallSetCallback cb) = set_callback cb w"
| "step w (CallUpdateShortcut k) = fst (update_shortcut k w)"
| "step w CallGetStatus = w"
| "step w (ThreadStep tid oc) = thread_step tid oc w"
| "step w (BusTrigger sid created started) =
     (if sid < length (services w) then fst (Trigger created started (services w ! sid) w)
      else w)"

definition run :: "world \<Rightarrow> event list \<Rightarrow> world" where
  "run w evs = foldl step w evs"

text \<open>
  A thread between the two points of line 52 holds the service object it has made; the
  controller does not refer to it yet.
\<close>

fun pending :: "tstate \<Rightarrow> nat option" where
  "pending (Running (AtStoreService sid)) = Some sid"
| "pending s = None"

definition storing :: "world \<Rightarrow> bool" where
  "storing w = list_ex (\<lambda>t. pending (tstate t) \<noteq> None) (threads w)"

text \<open>
  A history in which \<^verbatim>\<open>set_callback\<close> is never called while a thread stands between the
  two points of line 52.
\<close>

fun race_free :: "world \<Rightarrow> event list \<Rightarrow> bool" where
  "race_free w [] = True"
| "race_free w (CallSetCallback cb # evs) =
     (\<not> storing w \<and> race_free (step w (CallSetCallback cb)) evs)"
| "race_free w (ev # evs) = race_free (step w ev) evs"

section \<open>Invariants of the controller\<close>

text \<open>A raised flag comes with a thread object.\<close>

definition running_has_thread :: "world \<Rightarrow> bool" where
  "running_has_thread w = (is_running (self w) \<longrightarrow> listener_thread (self w) \<noteq> None)"

text \<open>The service object the controller refers to holds the controller's callback.\<close>

definition service_consistent :: "world \<Rightarrow> bool" where
  "service_consistent w =
     (case dbus_service (self w) of
        None \<Rightarrow> True
      | Some sid \<Rightarrow> sid < length (services w) \<and> handler (services w ! sid) = callback (self w))"

text \<open>A property of the service objects that the threads hold between the points of line 52.\<close>

definition locals_ok :: "(nat \<Rightarrow> bool) \<Rightarrow> thread list \<Rightarrow> bool" where
  "locals_ok Q ts =
     list_all (\<lambda>t. case pending (tstate t) of None \<Rightarrow> True | Some sid \<Rightarrow> Q sid) ts"

text \<open>Every reference to a service object, of the controller or of a thread, is in the store.\<close>

definition refs_valid :: "world \<Rightarrow> bool" where
  "refs_valid w =
     ((case dbus_service (self w) of None \<Rightarrow> True | Some sid \<Rightarrow> sid < length (services w)) \<and>
      locals_ok (\<lambda>sid. sid < length (services w)) (threads w))"

text \<open>
  The service object of the controller, and every one a thread is about to store, holds
  the controller's callback.
\<close>

definition handlers_fresh :: "world \<Rightarrow> bool" where
  "handlers_fresh w =
     (service_consistent w \<and>
      locals_ok (\<lambda>sid. sid < length (services w) \<and> handler (services w ! sid) = callback (self w))
        (threads w))"

section \<open>What the helpers leave alone\<close>

lemmas model_defs = run_def start_def start_spawn_def stop_def stop_try_def loop_quit_def
  thread_join_def thread_step_def thread_steps_def dunder_del_def dbus_loop_failed_def
  join_called_def storing_def
  set_tstate_def set_is_running_def print_def init_def is_alive_def is_active_def
  get_status_def set_callback_def update_shortcut_def Trigger_def Let_def

lemma self_set_tstate [simp]: "self (set_tstate tid s w) = self w"
  by (simp add: set_tstate_def)

lemma services_set_tstate [simp]: "services (set_tstate tid s w) = services w"
  by (simp add: set_tstate_def)

lemma self_print [simp]: "self (print l w) = self w"
  by (simp add: print_def)

lemma services_print [simp]: "services (print l w) = services w"
  by (simp add: print_def)

lemma threads_print [simp]: "threads (print l w) = threads w"
  by (simp add: print_def)

lemma self_set_is_running [simp]: "self (set_is_running b w) = (self w)\<lparr>is_running := b\<rparr>"
  by (simp add: set_is_running_def)

lemma services_set_is_running [simp]: "services (set_is_running b w) = services w"
  by (simp add: set_is_running_def)

lemma threads_set_tstate:
  "threads (set_tstate tid s w) = (threads w)[tid := (threads w ! tid)\<lparr>tstate := s\<rparr>]"
  by (simp add: set_tstate_def)

lemma threads_set_is_running [simp]: "threads (set_is_running b w) = threads w"
  by (simp add: set_is_running_def)

lemma self_dbus_loop_failed [simp]:
  "self (dbus_loop_failed tid e w) = (self w)\<lparr>is_running := False\<rparr>"
  by (simp add: dbus_loop_failed_def)

lemma services_dbus_loop_failed [simp]: "services (dbus_loop_failed tid e w) = services w"
  by (simp add: dbus_loop_failed_def)

section \<open>A raised flag has a thread: every step keeps it\<close>

lemma rht_dbus_loop_thread:
  "running_has_thread w \<Longrightarrow> running_has_thread (dbus_loop_thread tid p oc w)"
  by (cases p; cases oc) (simp_all add: running_has_thread_def)

lemma rht_thread_step: "running_has_thread w \<Longrightarrow> running_has_thread (thread_step tid oc w)"
  unfolding thread_step_def
  by (auto simp: rht_dbus_loop_thread split: tstate.splits target.splits)
     (simp add: running_has_thread_def)

lemma rht_thread_steps: "running_has_thread w \<Longrightarrow> running_has_thread (thread_steps tid ocs w)"
  unfolding thread_steps_def by (induction ocs arbitrary: w) (simp_all add: rht_thread_step)

lemma listener_thread_step [simp]:
  "listener_thread (self (thread_step tid oc w)) = listener_thread (self w)"
proof -
  have "listener_thread (self (dbus_loop_thread tid p oc w)) = listener_thread (self w)" for p
    by (cases p; cases oc) simp_all
  then show ?thesis
    by (simp add: thread_step_def split: tstate.splits target.splits)
qed

lemma listener_thread_steps [simp]:
  "listener_thread (self (thread_steps tid ocs w)) = listener_thread (self w)"
  unfolding thread_steps_def by (induction ocs arbitrary: w) simp_all

lemma fst_dunder_del: "fst (dunder_del q j w) = fst (stop q j w)"
  by (simp add: dunder_del_def split: prod.splits result.splits)

lemma start_spawn_Ok:
  "start_spawn Ok Ok w =
     (set_tstate (length (threads w)) (Running AtSessionBus)
        (w\<lparr>threads := threads w @
              [\<lparr>target = DbusLoopThread, daemon = True, tstate = Unstarted\<rparr>],
            self := (self w)\<lparr>listener_thread := Some (length (threads w))\<rparr>\<rparr>),
      Returned ())"
  by (simp add: start_spawn_def Let_def)

lemma rht_start: "running_has_thread w \<Longrightarrow> running_has_thread (fst (start c s early w))"
  by (auto simp: start_def start_spawn_def running_has_thread_def Let_def
           split: outcome.splits)

lemma rht_stop:
  assumes inv: "running_has_thread w"
  shows "running_has_thread (fst (stop q j w))"
proof -
  have "running_has_thread (fst (thread_join j w))"
    using inv
    by (auto simp: thread_join_def rht_thread_steps split: option.splits join_outcome.splits)
  with inv show ?thesis
    by (auto simp: stop_def stop_try_def loop_quit_def running_has_thread_def
             split: option.splits outcome.splits prod.splits result.splits)
qed

lemma rht_step:
  assumes inv: "running_has_thread w"
  shows "running_has_thread (step w ev)"
proof (cases ev)
  case (CallStart c s early)
  with inv show ?thesis by (simp add: rht_start)
next
  case (CallStop q j)
  with inv show ?thesis by (simp add: rht_stop)
next
  case (CallDel q j)
  with inv show ?thesis by (simp add: fst_dunder_del rht_stop)
next
  case (CallSetCallback cb)
  with inv show ?thesis
    by (auto simp: set_callback_def running_has_thread_def Let_def split: option.splits)
next
  case (CallUpdateShortcut k)
  with inv show ?thesis by (auto simp: update_shortcut_def running_has_thread_def)
next
  case (ThreadStep t oc)
  with inv show ?thesis by (simp add: rht_thread_step)
next
  case (BusTrigger sid c s)
  with inv show ?thesis
    by (auto simp: Trigger_def running_has_thread_def Let_def
             split: option.splits outcome.splits)
qed (simp_all add: inv)

lemma rht_run: "running_has_thread w \<Longrightarrow> running_has_thread (run w evs)"
  unfolding run_def by (induction evs arbitrary: w) (simp_all add: rht_step)

lemma rht_init: "running_has_thread (init key cb dp)"
  by (simp add: running_has_thread_def init_def)


section \<open>Service objects held by threads\<close>

lemma locals_ok_Nil [simp]: "locals_ok Q []"
  by (simp add: locals_ok_def)

lemma locals_ok_mono: "locals_ok Q ts \<Longrightarrow> (\<And>sid. Q sid \<Longrightarrow> Q' sid) \<Longrightarrow> locals_ok Q' ts"
  by (auto simp: locals_ok_def list_all_iff split: option.splits)

lemma locals_ok_snoc:
  "locals_ok Q ts \<Longrightarrow> pending (tstate t) = None \<Longrightarrow> locals_ok Q (ts @ [t])"
  by (simp add: locals_ok_def)

lemma locals_ok_update:
  assumes "locals_ok Q ts"
    and "case pending s of None \<Rightarrow> True | Some sid \<Rightarrow> Q sid"
  shows "locals_ok Q (ts[tid := (ts ! tid)\<lparr>tstate := s\<rparr>])"
proof -
  have "set (ts[tid := (ts ! tid)\<lparr>tstate := s\<rparr>]) \<subseteq> insert ((ts ! tid)\<lparr>tstate := s\<rparr>) (set ts)"
    by (rule set_update_subset_insert)
  with assms show ?thesis
    by (auto simp: locals_ok_def list_all_iff)
qed

lemma locals_ok_nth:
  "locals_ok Q ts \<Longrightarrow> tid < length ts \<Longrightarrow> pending (tstate (ts ! tid)) = Some sid \<Longrightarrow> Q sid"
  by (auto simp: locals_ok_def list_all_iff dest!: bspec [where x = "ts ! tid"])

lemma locals_ok_idle: "\<not> list_ex (\<lambda>t. pending (tstate t) \<noteq> None) ts \<Longrightarrow> locals_ok Q ts"
  by (auto simp: locals_ok_def list_all_iff list_ex_iff)


lemma threads_dbus_loop_failed:
  "threads (dbus_loop_failed tid e w) = (threads w)[tid := (threads w ! tid)\<lparr>tstate := Finished\<rparr>]"
  by (simp add: dbus_loop_failed_def set_tstate_def set_is_running_def print_def)

section \<open>References stay in the store\<close>

lemma rv_eq:
  assumes "refs_valid w"
    and "dbus_service (self w') = dbus_service (self w)"
    and "length (services w) \<le> length (services w')"
    and "threads w' = threads w"
  shows "refs_valid w'"
proof -
  from assms(1) have "locals_ok (\<lambda>sid. sid < length (services w)) (threads w)"
    by (simp add: refs_valid_def)
  then have "locals_ok (\<lambda>sid. sid < length (services w')) (threads w)"
    using assms(3) by (auto elim: locals_ok_mono)
  with assms show ?thesis
    by (auto simp: refs_valid_def split: option.splits)
qed

lemma rv_set_tstate:
  assumes "refs_valid w" and "pending s = None"
  shows "refs_valid (set_tstate tid s w)"
proof -
  from assms(1) have "locals_ok (\<lambda>sid. sid < length (services w)) (threads w)"
    by (simp add: refs_valid_def)
  then have "locals_ok (\<lambda>sid. sid < length (services w))
      ((threads w)[tid := (threads w ! tid)\<lparr>tstate := s\<rparr>])"
    by (rule locals_ok_update) (simp add: assms(2))
  with assms(1) show ?thesis
    by (simp add: refs_valid_def threads_set_tstate split: option.splits)
qed

lemma rv_snoc:
  assumes "refs_valid w" and "pending (tstate t) = None"
  shows "refs_valid (w\<lparr>threads := threads w @ [t]\<rparr>)"
  using assms by (simp add: refs_valid_def locals_ok_snoc split: option.splits)

lemma rv_print: "refs_valid w \<Longrightarrow> refs_valid (print l w)"
  by (erule rv_eq) simp_all

lemma rv_set_is_running: "refs_valid w \<Longrightarrow> refs_valid (set_is_running b w)"
  by (erule rv_eq) simp_all

lemma rv_dbus_loop_failed: "refs_valid w \<Longrightarrow> refs_valid (dbus_loop_failed tid e w)"
  unfolding dbus_loop_failed_def
  by (intro rv_set_tstate rv_set_is_running) (erule rv_eq, simp_all add: print_def)

lemma rv_dbus_loop_thread:
  assumes inv: "refs_valid w" and tid: "tid < length (threads w)"
    and at: "tstate (threads w ! tid) = Running p"
  shows "refs_valid (dbus_loop_thread tid p oc w)"
proof (cases p)
  case AtService
  from inv have "locals_ok (\<lambda>sid. sid < length (services w)) (threads w)"
    by (simp add: refs_valid_def)
  then have "locals_ok (\<lambda>sid. sid < Suc (length (services w))) (threads w)"
    by (auto elim: locals_ok_mono)
  then have "locals_ok (\<lambda>sid. sid < Suc (length (services w)))
      ((threads w)[tid := (threads w ! tid)\<lparr>tstate := Running (AtStoreService (length (services w)))\<rparr>])"
    by (rule locals_ok_update) simp
  with inv AtService show ?thesis
    by (auto simp: refs_valid_def set_tstate_def split: option.splits)
next
  case (AtStoreService sid)
  with at have "pending (tstate (threads w ! tid)) = Some sid" by simp
  with inv tid have sid: "sid < length (services w)"
    by (auto simp: refs_valid_def dest: locals_ok_nth)
  from inv have "locals_ok (\<lambda>sid. sid < length (services w)) (threads w)"
    by (simp add: refs_valid_def)
  then have "locals_ok (\<lambda>sid. sid < length (services w))
      ((threads w)[tid := (threads w ! tid)\<lparr>tstate := Running AtPublish\<rparr>])"
    by (rule locals_ok_update) simp
  with sid AtStoreService show ?thesis
    by (simp add: refs_valid_def set_tstate_def)
next
  case AtSessionBus
  with inv show ?thesis
    by (cases oc) (simp_all add: rv_set_tstate rv_dbus_loop_failed)
next
  case AtPublish
  have "refs_valid (w\<lparr>published := xs\<rparr>)" for xs
    by (rule rv_eq [OF inv]) simp_all
  with inv AtPublish show ?thesis
    by (cases oc) (simp_all add: rv_set_tstate rv_dbus_loop_failed)
next
  case AtMainLoop
  have "refs_valid (w\<lparr>loops := n, self := (self w)\<lparr>dbus_loop := l\<rparr>\<rparr>)" for n l
    by (rule rv_eq [OF inv]) simp_all
  with AtMainLoop show ?thesis
    by (simp add: rv_set_tstate)
next
  case AtPrint
  with inv show ?thesis
    by (simp add: rv_set_tstate rv_print)
next
  case AtRun
  with inv show ?thesis
    by (cases oc) (simp_all add: rv_set_tstate rv_dbus_loop_failed)
next
  case AtHandler
  with inv show ?thesis by simp
qed

lemma rv_thread_step: "refs_valid w \<Longrightarrow> refs_valid (thread_step tid oc w)"
  unfolding thread_step_def
  by (auto simp: rv_dbus_loop_thread rv_set_tstate split: tstate.splits target.splits)

lemma rv_thread_steps: "refs_valid w \<Longrightarrow> refs_valid (thread_steps tid ocs w)"
  unfolding thread_steps_def by (induction ocs arbitrary: w) (simp_all add: rv_thread_step)

lemma rv_start_spawn: "refs_valid w \<Longrightarrow> refs_valid (fst (start_spawn c s w))"
proof -
  assume inv: "refs_valid w"
  let ?t = "\<lparr>target = DbusLoopThread, daemon = True, tstate = Unstarted\<rparr>"
  have "refs_valid (w\<lparr>threads := threads w @ [?t]\<rparr>)"
    by (rule rv_snoc [OF inv]) simp
  then have a: "refs_valid (w\<lparr>threads := threads w @ [?t],
      self := (self w)\<lparr>listener_thread := Some (length (threads w))\<rparr>\<rparr>)"
    by (rule rv_eq) simp_all
  show ?thesis
    using inv a by (cases c; cases s) (simp_all add: start_spawn_def Let_def rv_set_tstate)
qed

lemma rv_start: "refs_valid w \<Longrightarrow> refs_valid (fst (start c s early w))"
proof -
  assume inv: "refs_valid w"
  have "refs_valid (fst (start_spawn c s w))"
    by (rule rv_start_spawn [OF inv])
  then show ?thesis
    using inv
    by (auto simp: start_def Let_def rv_print rv_set_is_running rv_thread_steps
             split: prod.splits result.splits)
qed

lemma rv_stop: "refs_valid w \<Longrightarrow> refs_valid (fst (stop q j w))"
proof -
  assume inv: "refs_valid w"
  have "refs_valid (fst (thread_join j w))"
    using inv
    by (auto simp: thread_join_def rv_thread_steps split: option.splits join_outcome.splits)
  with inv show ?thesis
    by (auto simp: stop_def stop_try_def loop_quit_def rv_print rv_set_is_running
             split: option.splits outcome.splits prod.splits result.splits)
qed

lemma rv_set_callback: "refs_valid w \<Longrightarrow> refs_valid (set_callback cb w)"
  by (erule rv_eq) (simp_all add: set_callback_def Let_def split: option.splits)

lemma rv_Trigger: "refs_valid w \<Longrightarrow> refs_valid (fst (Trigger c s svc w))"
proof -
  assume inv: "refs_valid w"
  have "refs_valid ((print l w)\<lparr>threads := threads (print l w) @
      [\<lparr>target = Handler h, daemon = True, tstate = Unstarted\<rparr>]\<rparr>)" for l h
    by (rule rv_snoc [OF rv_print [OF inv]]) simp
  with inv show ?thesis
    by (cases c; cases s)
       (auto simp: Trigger_def Let_def rv_print rv_set_tstate split: option.splits)
qed

lemma rv_step:
  assumes inv: "refs_valid w"
  shows "refs_valid (step w ev)"
proof (cases ev)
  case (CallStart c s early)
  with inv show ?thesis by (simp add: rv_start)
next
  case (CallStop q j)
  with inv show ?thesis by (simp add: rv_stop)
next
  case (CallDel q j)
  with inv show ?thesis by (simp add: fst_dunder_del rv_stop)
next
  case (CallSetCallback cb)
  with inv show ?thesis by (simp add: rv_set_callback)
next
  case (CallUpdateShortcut k)
  have "refs_valid (w\<lparr>self := (self w)\<lparr>primary_key := k\<rparr>\<rparr>)"
    by (rule rv_eq [OF inv]) simp_all
  with CallUpdateShortcut show ?thesis
    by (simp add: update_shortcut_def rv_print)
next
  case (ThreadStep t oc)
  with inv show ?thesis by (simp add: rv_thread_step)
next
  case (BusTrigger sid c s)
  with inv show ?thesis by (simp add: rv_Trigger)
qed (simp_all add: inv)

lemma rv_run: "refs_valid w \<Longrightarrow> refs_valid (run w evs)"
  unfolding run_def by (induction evs arbitrary: w) (simp_all add: rv_step)

lemma rv_init: "refs_valid (init key cb dp)"
  by (simp add: refs_valid_def init_def)


section \<open>Handlers stay fresh in a history without the race\<close>

lemma hf_eq:
  assumes "handlers_fresh w"
    and "dbus_service (self w') = dbus_service (self w)"
    and "services w' = services w"
    and "callback (self w') = callback (self w)"
    and "threads w' = threads w"
  shows "handlers_fresh w'"
  using assms by (simp add: handlers_fresh_def service_consistent_def split: option.splits)

lemma hf_set_tstate:
  assumes "handlers_fresh w" and "pending s = None"
  shows "handlers_fresh (set_tstate tid s w)"
proof -
  let ?Q = "\<lambda>sid. sid < length (services w) \<and> handler (services w ! sid) = callback (self w)"
  from assms(1) have "locals_ok ?Q (threads w)"
    by (simp add: handlers_fresh_def)
  then have "locals_ok ?Q ((threads w)[tid := (threads w ! tid)\<lparr>tstate := s\<rparr>])"
    by (rule locals_ok_update) (simp add: assms(2))
  with assms(1) show ?thesis
    by (simp add: handlers_fresh_def service_consistent_def threads_set_tstate
          split: option.splits)
qed

lemma hf_snoc:
  assumes "handlers_fresh w" and "pending (tstate t) = None"
  shows "handlers_fresh (w\<lparr>threads := threads w @ [t]\<rparr>)"
  using assms
  by (simp add: handlers_fresh_def service_consistent_def locals_ok_snoc split: option.splits)

lemma hf_print: "handlers_fresh w \<Longrightarrow> handlers_fresh (print l w)"
  by (erule hf_eq) simp_all

lemma hf_set_is_running: "handlers_fresh w \<Longrightarrow> handlers_fresh (set_is_running b w)"
  by (erule hf_eq) simp_all

lemma hf_dbus_loop_failed: "handlers_fresh w \<Longrightarrow> handlers_fresh (dbus_loop_failed tid e w)"
  unfolding dbus_loop_failed_def
  by (intro hf_set_tstate hf_set_is_running) (erule hf_eq, simp_all add: print_def)

lemma hf_dbus_loop_thread:
  assumes inv: "handlers_fresh w" and tid: "tid < length (threads w)"
    and at: "tstate (threads w ! tid) = Running p"
  shows "handlers_fresh (dbus_loop_thread tid p oc w)"
proof (cases p)
  case AtService
  let ?new = "\<lparr>handler = callback (self w)\<rparr>"
  let ?Q = "\<lambda>sid. sid < length (services w) \<and> handler (services w ! sid) = callback (self w)"
  let ?Q' = "\<lambda>sid. sid < Suc (length (services w)) \<and>
     handler ((services w @ [?new]) ! sid) = callback (self w)"
  from inv have "locals_ok ?Q (threads w)"
    by (simp add: handlers_fresh_def)
  then have "locals_ok ?Q' (threads w)"
    by (rule locals_ok_mono) (simp add: nth_append)
  then have "locals_ok ?Q'
      ((threads w)[tid := (threads w ! tid)\<lparr>tstate := Running (AtStoreService (length (services w)))\<rparr>])"
    by (rule locals_ok_update) simp
  with inv AtService show ?thesis
    by (auto simp: handlers_fresh_def service_consistent_def set_tstate_def nth_append
             split: option.splits)
next
  case (AtStoreService sid)
  let ?Q = "\<lambda>sid. sid < length (services w) \<and> handler (services w ! sid) = callback (self w)"
  from inv have loc: "locals_ok ?Q (threads w)"
    by (simp add: handlers_fresh_def)
  from at AtStoreService have "pending (tstate (threads w ! tid)) = Some sid" by simp
  with loc tid have sid: "?Q sid"
    by (rule locals_ok_nth [where Q = ?Q])
  from loc have "locals_ok ?Q ((threads w)[tid := (threads w ! tid)\<lparr>tstate := Running AtPublish\<rparr>])"
    by (rule locals_ok_update) simp
  with sid AtStoreService show ?thesis
    by (simp add: handlers_fresh_def service_consistent_def set_tstate_def)
next
  case AtSessionBus
  with inv show ?thesis
    by (cases oc) (simp_all add: hf_set_tstate hf_dbus_loop_failed)
next
  case AtPublish
  have "handlers_fresh (w\<lparr>published := xs\<rparr>)" for xs
    by (rule hf_eq [OF inv]) simp_all
  with inv AtPublish show ?thesis
    by (cases oc) (simp_all add: hf_set_tstate hf_dbus_loop_failed)
next
  case AtMainLoop
  have "handlers_fresh (w\<lparr>loops := n, self := (self w)\<lparr>dbus_loop := l\<rparr>\<rparr>)" for n l
    by (rule hf_eq [OF inv]) simp_all
  with AtMainLoop show ?thesis
    by (simp add: hf_set_tstate)
next
  case AtPrint
  with inv show ?thesis
    by (simp add: hf_set_tstate hf_print)
next
  case AtRun
  with inv show ?thesis
    by (cases oc) (simp_all add: hf_set_tstate hf_dbus_loop_failed)
next
  case AtHandler
  with inv show ?thesis by simp
qed

lemma hf_thread_step: "handlers_fresh w \<Longrightarrow> handlers_fresh (thread_step tid oc w)"
  unfolding thread_step_def
  by (auto simp: hf_dbus_loop_thread hf_set_tstate split: tstate.splits target.splits)

lemma hf_thread_steps: "handlers_fresh w \<Longrightarrow> handlers_fresh (thread_steps tid ocs w)"
  unfolding thread_steps_def by (induction ocs arbitrary: w) (simp_all add: hf_thread_step)

lemma hf_start_spawn: "handlers_fresh w \<Longrightarrow> handlers_fresh (fst (start_spawn c s w))"
proof -
  assume inv: "handlers_fresh w"
  let ?t = "\<lparr>target = DbusLoopThread, daemon = True, tstate = Unstarted\<rparr>"
  have "handlers_fresh (w\<lparr>threads := threads w @ [?t]\<rparr>)"
    by (rule hf_snoc [OF inv]) simp
  then have a: "handlers_fresh (w\<lparr>threads := threads w @ [?t],
      self := (self w)\<lparr>listener_thread := Some (length (threads w))\<rparr>\<rparr>)"
    by (rule hf_eq) simp_all
  show ?thesis
    using inv a by (cases c; cases s) (simp_all add: start_spawn_def Let_def hf_set_tstate)
qed

lemma hf_start: "handlers_fresh w \<Longrightarrow> handlers_fresh (fst (start c s early w))"
proof -
  assume inv: "handlers_fresh w"
  have "handlers_fresh (fst (start_spawn c s w))"
    by (rule hf_start_spawn [OF inv])
  then show ?thesis
    using inv
    by (auto simp: start_def Let_def hf_print hf_set_is_running hf_thread_steps
             split: prod.splits result.splits)
qed

lemma hf_stop: "handlers_fresh w \<Longrightarrow> handlers_fresh (fst (stop q j w))"
proof -
  assume inv: "handlers_fresh w"
  have "handlers_fresh (fst (thread_join j w))"
    using inv
    by (auto simp: thread_join_def hf_thread_steps split: option.splits join_outcome.splits)
  with inv show ?thesis
    by (auto simp: stop_def stop_try_def loop_quit_def hf_print hf_set_is_running
             split: option.splits outcome.splits prod.splits result.splits)
qed

lemma hf_set_callback:
  assumes inv: "handlers_fresh w" and idle: "\<not> storing w"
  shows "handlers_fresh (set_callback cb w)"
proof -
  have thr: "threads (set_callback cb w) = threads w"
    by (simp add: set_callback_def Let_def split: option.splits)
  from idle have "locals_ok Q (threads w)" for Q
    by (simp add: storing_def locals_ok_idle)
  moreover from inv have "service_consistent (set_callback cb w)"
    by (auto simp: handlers_fresh_def service_consistent_def set_callback_def Let_def
             split: option.splits)
  ultimately show ?thesis
    by (simp add: handlers_fresh_def thr)
qed

lemma hf_Trigger: "handlers_fresh w \<Longrightarrow> handlers_fresh (fst (Trigger c s svc w))"
proof -
  assume inv: "handlers_fresh w"
  have "handlers_fresh ((print l w)\<lparr>threads := threads (print l w) @
      [\<lparr>target = Handler h, daemon = True, tstate = Unstarted\<rparr>]\<rparr>)" for l h
    by (rule hf_snoc [OF hf_print [OF inv]]) simp
  with inv show ?thesis
    by (cases c; cases s)
       (auto simp: Trigger_def Let_def hf_print hf_set_tstate split: option.splits)
qed

lemma hf_step:
  assumes inv: "handlers_fresh w" and ok: "race_free w [ev]"
  shows "handlers_fresh (step w ev)"
proof (cases ev)
  case (CallStart c s early)
  with inv show ?thesis by (simp add: hf_start)
next
  case (CallStop q j)
  with inv show ?thesis by (simp add: hf_stop)
next
  case (CallDel q j)
  with inv show ?thesis by (simp add: fst_dunder_del hf_stop)
next
  case (CallSetCallback cb)
  with inv ok show ?thesis by (simp add: hf_set_callback)
next
  case (CallUpdateShortcut k)
  have "handlers_fresh (w\<lparr>self := (self w)\<lparr>primary_key := k\<rparr>\<rparr>)"
    by (rule hf_eq [OF inv]) simp_all
  with CallUpdateShortcut show ?thesis
    by (simp add: update_shortcut_def hf_print)
next
  case (ThreadStep t oc)
  with inv show ?thesis by (simp add: hf_thread_step)
next
  case (BusTrigger sid c s)
  with inv show ?thesis by (simp add: hf_Trigger)
qed (simp_all add: inv)

lemma race_free_Cons: "race_free w (ev # evs) = (race_free w [ev] \<and> race_free (step w ev) evs)"
  by (cases ev) simp_all

lemma hf_run: "handlers_fresh w \<Longrightarrow> race_free w evs \<Longrightarrow> handlers_fresh (run w evs)"
proof (induction evs arbitrary: w)
  case Nil
  then show ?case by (simp add: run_def)
next
  case (Cons ev evs)
  from Cons.prems(2) have one: "race_free w [ev]" and rest: "race_free (step w ev) evs"
    by (simp_all add: race_free_Cons [of w ev evs])
  from Cons.prems(1) one have "handlers_fresh (step w ev)"
    by (rule hf_step)
  from Cons.IH [OF this rest] show ?case
    by (simp add: run_def)
qed

lemma hf_init: "handlers_fresh (init key cb dp)"
  by (simp add: handlers_fresh_def service_consistent_def init_def)

section \<open>The claims\<close>

subsection \<open>C1: stop\<close>

text \<open>
  C1, as the code has it. \<^verbatim>\<open>stop()\<close> is called on a running controller.
  When neither \<^verbatim>\<open>quit()\<close> nor \<^verbatim>\<open>join()\<close> raises, it returns normally, the running flag is
  false and \<^verbatim>\<open>Global shortcuts stopped\<close> is printed, whatever the thread does while
  \<^verbatim>\<open>join()\<close> waits and whether or not it has ended by then.
  When \<^verbatim>\<open>quit()\<close> is called and raises an error, or \<^verbatim>\<open>join()\<close> is called and raises an error,
  the \<^verbatim>\<open>except Exception\<close> branch prints \<^verbatim>\<open>Error stopping global shortcuts:\<close> with the
  error, \<^verbatim>\<open>stop()\<close> returns normally and nothing else has changed: the flag is still true.
  When \<^verbatim>\<open>join()\<close> is interrupted by an exception that is not an \<^verbatim>\<open>Exception\<close>, nothing
  catches it: it reaches the caller of \<^verbatim>\<open>stop()\<close>, nothing is printed and the flag is still
  true.
\<close>

theorem stop_returns:
  "is_running (self w) \<Longrightarrow>
   (dbus_loop (self w) \<noteq> None \<and> q = Fails e \<longrightarrow>
      stop q j w = (print (''Error stopping global shortcuts: '' @ str e) w, Returned ())) \<and>
   ((dbus_loop (self w) = None \<or> q = Ok) \<and> listener_thread (self w) = Some tid \<and>
    is_alive w tid \<longrightarrow>
      (j = JoinRaises e \<longrightarrow>
         stop q j w = (print (''Error stopping global shortcuts: '' @ str e) w, Returned ())) \<and>
      (j = JoinInterrupted b \<longrightarrow> stop q j w = (w, RaisedBase b)) \<and>
      (j = JoinReturns ocs \<longrightarrow>
         stop q j w =
           (print ''Global shortcuts stopped'' (set_is_running False (thread_steps tid ocs w)),
            Returned ()))) \<and>
   ((dbus_loop (self w) = None \<or> q = Ok) \<and> \<not> join_called w \<longrightarrow>
      stop q j w = (print ''Global shortcuts stopped'' (set_is_running False w), Returned ())) \<and>
   is_running (self (fst (stop q j w))) =
     ((dbus_loop (self w) \<noteq> None \<and> raises q) \<or> (join_called w \<and> \<not> join_returns j)) \<and>
   (snd (stop q j w) = Returned () \<or>
    (\<exists>b'. j = JoinInterrupted b' \<and> snd (stop q j w) = RaisedBase b' \<and> join_called w))"
proof -
  assume running: "is_running (self w)"
  have quit_fails: "stop q j w = (print (''Error stopping global shortcuts: '' @ str e) w, Returned ())"
    if "dbus_loop (self w) \<noteq> None" "q = Fails e"
    using running that by (auto simp: stop_def stop_try_def loop_quit_def)
  have quit_ok: "loop_quit q w = (w, Returned ())" if "dbus_loop (self w) = None \<or> q = Ok"
    using that by (auto simp: loop_quit_def split: option.splits)
  have joined: "stop q j w =
      (case j of
         JoinRaises e' \<Rightarrow> (print (''Error stopping global shortcuts: '' @ str e') w, Returned ())
       | JoinInterrupted b' \<Rightarrow> (w, RaisedBase b')
       | JoinReturns ocs' \<Rightarrow>
           (print ''Global shortcuts stopped'' (set_is_running False (thread_steps t ocs' w)),
            Returned ()))"
    if "dbus_loop (self w) = None \<or> q = Ok" "listener_thread (self w) = Some t" "is_alive w t"
    for t
    using running that(2,3) quit_ok [OF that(1)]
    by (simp add: stop_def stop_try_def thread_join_def split: join_outcome.splits)
  have not_joined: "stop q j w =
      (print ''Global shortcuts stopped'' (set_is_running False w), Returned ())"
    if "dbus_loop (self w) = None \<or> q = Ok" "\<not> join_called w"
    using running that(2) quit_ok [OF that(1)]
    by (auto simp: stop_def stop_try_def thread_join_def join_called_def split: option.splits)
  have flag: "is_running (self (fst (stop q j w))) =
     ((dbus_loop (self w) \<noteq> None \<and> raises q) \<or> (join_called w \<and> \<not> join_returns j))"
  proof (cases "dbus_loop (self w) \<noteq> None \<and> raises q")
    case True
    then obtain e' where "q = Fails e'" by (cases q) auto
    with True running show ?thesis
      by (auto simp: stop_def stop_try_def loop_quit_def)
  next
    case False
    then have ok: "dbus_loop (self w) = None \<or> q = Ok" by (cases q) auto
    show ?thesis
    proof (cases "join_called w")
      case True
      then obtain t where t: "listener_thread (self w) = Some t" "is_alive w t"
        by (auto simp: join_called_def split: option.splits)
      from running True False joined [OF ok t] show ?thesis
        by (cases j) simp_all
    next
      case no: False
      with False running show ?thesis
        by (simp add: not_joined [OF ok no])
    qed
  qed
  have outcome: "snd (stop q j w) = Returned () \<or>
    (\<exists>b'. j = JoinInterrupted b' \<and> snd (stop q j w) = RaisedBase b' \<and> join_called w)"
    using running
    by (cases q; cases j)
       (auto simp: stop_def stop_try_def loop_quit_def thread_join_def join_called_def
             split: option.splits)
  show ?thesis
  proof (intro conjI impI)
    assume "dbus_loop (self w) \<noteq> None \<and> q = Fails e"
    then show "stop q j w =
        (print (''Error stopping global shortcuts: '' @ str e) w, Returned ())"
      using quit_fails by simp
  next
    assume "(dbus_loop (self w) = None \<or> q = Ok) \<and> listener_thread (self w) = Some tid \<and>
      is_alive w tid" and "j = JoinRaises e"
    then show "stop q j w =
        (print (''Error stopping global shortcuts: '' @ str e) w, Returned ())"
      using joined [of tid] by simp
  next
    assume "(dbus_loop (self w) = None \<or> q = Ok) \<and> listener_thread (self w) = Some tid \<and>
      is_alive w tid" and "j = JoinInterrupted b"
    then show "stop q j w = (w, RaisedBase b)"
      using joined [of tid] by simp
  next
    assume "(dbus_loop (self w) = None \<or> q = Ok) \<and> listener_thread (self w) = Some tid \<and>
      is_alive w tid" and "j = JoinReturns ocs"
    then show "stop q j w =
        (print ''Global shortcuts stopped'' (set_is_running False (thread_steps tid ocs w)),
         Returned ())"
      using joined [of tid] by simp
  next
    assume "(dbus_loop (self w) = None \<or> q = Ok) \<and> \<not> join_called w"
    then show "stop q j w =
        (print ''Global shortcuts stopped'' (set_is_running False w), Returned ())"
      using not_joined by simp
  next
    show "is_running (self (fst (stop q j w))) =
       ((dbus_loop (self w) \<noteq> None \<and> raises q) \<or> (join_called w \<and> \<not> join_returns j))"
      by (rule flag)
  next
    show "snd (stop q j w) = Returned () \<or>
      (\<exists>b'. j = JoinInterrupted b' \<and> snd (stop q j w) = RaisedBase b' \<and> join_called w)"
      by (rule outcome)
  qed
qed

text \<open>
  The thread stands in \<^verbatim>\<open>run()\<close>; \<^verbatim>\<open>quit()\<close> succeeds and the loop returns while
  \<^verbatim>\<open>join()\<close> waits.
\<close>

theorem stop_returns_witness:
  "is_running (self (run (init ''<f12>'' None None)
      [CallStart Ok Ok [], ThreadStep 0 Ok, ThreadStep 0 Ok, ThreadStep 0 Ok, ThreadStep 0 Ok,
       ThreadStep 0 Ok, ThreadStep 0 Ok])) \<and>
   dbus_loop (self (run (init ''<f12>'' None None)
      [CallStart Ok Ok [], ThreadStep 0 Ok, ThreadStep 0 Ok, ThreadStep 0 Ok, ThreadStep 0 Ok,
       ThreadStep 0 Ok, ThreadStep 0 Ok])) = Some 0 \<and>
   listener_thread (self (run (init ''<f12>'' None None)
      [CallStart Ok Ok [], ThreadStep 0 Ok, ThreadStep 0 Ok, ThreadStep 0 Ok, ThreadStep 0 Ok,
       ThreadStep 0 Ok, ThreadStep 0 Ok])) = Some 0 \<and>
   is_alive (run (init ''<f12>'' None None)
      [CallStart Ok Ok [], ThreadStep 0 Ok, ThreadStep 0 Ok, ThreadStep 0 Ok, ThreadStep 0 Ok,
       ThreadStep 0 Ok, ThreadStep 0 Ok]) 0 \<and>
   snd (stop Ok (JoinReturns [Ok]) (run (init ''<f12>'' None None)
      [CallStart Ok Ok [], ThreadStep 0 Ok, ThreadStep 0 Ok, ThreadStep 0 Ok, ThreadStep 0 Ok,
       ThreadStep 0 Ok, ThreadStep 0 Ok])) = Returned () \<and>
   \<not> is_running (self (fst (stop Ok (JoinReturns [Ok]) (run (init ''<f12>'' None None)
      [CallStart Ok Ok [], ThreadStep 0 Ok, ThreadStep 0 Ok, ThreadStep 0 Ok, ThreadStep 0 Ok,
       ThreadStep 0 Ok, ThreadStep 0 Ok])))) \<and>
   \<not> is_alive (fst (stop Ok (JoinReturns [Ok]) (run (init ''<f12>'' None None)
      [CallStart Ok Ok [], ThreadStep 0 Ok, ThreadStep 0 Ok, ThreadStep 0 Ok, ThreadStep 0 Ok,
       ThreadStep 0 Ok, ThreadStep 0 Ok]))) 0 \<and>
   last (stdout (fst (stop Ok (JoinReturns [Ok]) (run (init ''<f12>'' None None)
      [CallStart Ok Ok [], ThreadStep 0 Ok, ThreadStep 0 Ok, ThreadStep 0 Ok, ThreadStep 0 Ok,
       ThreadStep 0 Ok, ThreadStep 0 Ok])))) = ''Global shortcuts stopped''"
  using stop_returns [where w = "run (init ''<f12>'' None None)
      [CallStart Ok Ok [], ThreadStep 0 Ok, ThreadStep 0 Ok, ThreadStep 0 Ok, ThreadStep 0 Ok,
       ThreadStep 0 Ok, ThreadStep 0 Ok]"
      and q = Ok and j = "JoinReturns [Ok]" and tid = 0 and ocs = "[Ok]"
      and e = "Exception []" and b = KeyboardInterrupt]
  by (simp add: model_defs)

text \<open>
  The same state. With \<^verbatim>\<open>quit()\<close> raising an error, \<^verbatim>\<open>stop()\<close> returns and the flag is
  still true. With \<^verbatim>\<open>join()\<close> interrupted from the keyboard, \<^verbatim>\<open>stop()\<close> does not return
  normally: the interrupt reaches its caller.
\<close>

theorem stop_keeps_flag_on_error:
  "is_running (self (run (init ''<f12>'' None None)
      [CallStart Ok Ok [], ThreadStep 0 Ok, ThreadStep 0 Ok, ThreadStep 0 Ok, ThreadStep 0 Ok,
       ThreadStep 0 Ok, ThreadStep 0 Ok])) \<and>
   snd (stop (Fails (Exception ''quit failed'')) (JoinReturns []) (run (init ''<f12>'' None None)
      [CallStart Ok Ok [], ThreadStep 0 Ok, ThreadStep 0 Ok, ThreadStep 0 Ok, ThreadStep 0 Ok,
       ThreadStep 0 Ok, ThreadStep 0 Ok])) = Returned () \<and>
   is_running (self (fst (stop (Fails (Exception ''quit failed'')) (JoinReturns []) (run (init ''<f12>'' None None)
      [CallStart Ok Ok [], ThreadStep 0 Ok, ThreadStep 0 Ok, ThreadStep 0 Ok, ThreadStep 0 Ok,
       ThreadStep 0 Ok, ThreadStep 0 Ok])))) \<and>
   snd (stop Ok (JoinInterrupted KeyboardInterrupt) (run (init ''<f12>'' None None)
      [CallStart Ok Ok [], ThreadStep 0 Ok, ThreadStep 0 Ok, ThreadStep 0 Ok, ThreadStep 0 Ok,
       ThreadStep 0 Ok, ThreadStep 0 Ok])) = RaisedBase KeyboardInterrupt \<and>
   is_running (self (fst (stop Ok (JoinInterrupted KeyboardInterrupt) (run (init ''<f12>'' None None)
      [CallStart Ok Ok [], ThreadStep 0 Ok, ThreadStep 0 Ok, ThreadStep 0 Ok, ThreadStep 0 Ok,
       ThreadStep 0 Ok, ThreadStep 0 Ok]))))"
  by (simp add: model_defs)

subsection \<open>C2: start on a stopped controller\<close>

text \<open>
  C2, as the code has it. On a controller that is not running, \<^verbatim>\<open>start()\<close> returns false
  exactly when making or starting the thread raises, and true otherwise. The thread is made
  and started first (lines 71 and 72), with the flag still false; the flag is set to true
  only afterwards (line 73), and only when the thread was started, whatever the thread has
  done by then. The call never waits for the thread: it returns true whether the thread has
  not run at all, in which case nothing is published yet, or has already failed.
\<close>

theorem start_when_stopped:
  "\<not> is_running (self w) \<Longrightarrow>
   snd (start created started early w) = Returned (\<not> raises created \<and> \<not> raises started) \<and>
   is_running (self (fst (start created started early w))) =
     (\<not> raises created \<and> \<not> raises started) \<and>
   \<not> is_running (self (fst (start_spawn created started w))) \<and>
   (\<not> raises created \<and> \<not> raises started \<longrightarrow>
      is_alive (fst (start_spawn created started w)) (length (threads w)) \<and>
      listener_thread (self (fst (start created started early w))) = Some (length (threads w)) \<and>
      fst (start created started early w) =
        print (''Global shortcuts started, listening for '' @ primary_key (self w) @ '' via D-Bus'')
          (set_is_running True
             (thread_steps (length (threads w)) early (fst (start_spawn created started w)))) \<and>
      threads (fst (start created started [] w)) =
        threads w @ [\<lparr>target = DbusLoopThread, daemon = True, tstate = Running AtSessionBus\<rparr>] \<and>
      services (fst (start created started [] w)) = services w \<and>
      dbus_service (self (fst (start created started [] w))) = dbus_service (self w))"
proof -
  assume stopped: "\<not> is_running (self w)"
  have key: "primary_key (self (thread_steps tid ocs v)) = primary_key (self v)" for tid ocs v
  proof (induction ocs arbitrary: v)
    case Nil
    show ?case by (simp add: thread_steps_def)
  next
    case (Cons oc ocs)
    have one: "primary_key (self (thread_step tid oc v)) = primary_key (self v)"
    proof -
      have "primary_key (self (dbus_loop_thread tid p oc v)) = primary_key (self v)" for p
        by (cases p; cases oc) simp_all
      then show ?thesis
        by (simp add: thread_step_def split: tstate.splits target.splits)
    qed
    from Cons.IH [of "thread_step tid oc v"] one show ?case
      by (simp add: thread_steps_def)
  qed
  show ?thesis
  proof (cases "raises created \<or> raises started")
    case True
    with stopped show ?thesis
      by (cases created; cases started) (simp_all add: start_def start_spawn_def Let_def)
  next
    case False
    then have ok: "created = Ok" "started = Ok"
      by (cases created; simp; cases started; simp)+
    note spawn = start_spawn_Ok [of w]
    have st: "fst (start Ok Ok ocs w) =
        print (''Global shortcuts started, listening for '' @ primary_key (self w) @ '' via D-Bus'')
          (set_is_running True (thread_steps (length (threads w)) ocs (fst (start_spawn Ok Ok w))))"
      for ocs
      using stopped by (simp add: start_def spawn key Let_def)
    have alive: "is_alive (fst (start_spawn Ok Ok w)) (length (threads w))"
      by (simp add: spawn is_alive_def set_tstate_def)
    show ?thesis
      using stopped alive
      by (simp add: ok st) (simp add: start_def spawn thread_steps_def set_tstate_def Let_def)
  qed
qed

text \<open>A fresh controller, started while the thread has not run yet.\<close>

theorem start_when_stopped_witness:
  "\<not> is_running (self (init ''<f12>'' None None)) \<and>
   snd (start Ok Ok [] (init ''<f12>'' None None)) = Returned True \<and>
   is_running (self (fst (start Ok Ok [] (init ''<f12>'' None None)))) \<and>
   listener_thread (self (fst (start Ok Ok [] (init ''<f12>'' None None)))) = Some 0 \<and>
   threads (fst (start Ok Ok [] (init ''<f12>'' None None))) =
     [\<lparr>target = DbusLoopThread, daemon = True, tstate = Running AtSessionBus\<rparr>]"
  using start_when_stopped [of "init ''<f12>'' None None" Ok Ok "[]"]
  by (simp add: model_defs)

text \<open>
  On a fresh controller, after lines 71 and 72 the thread is alive and the flag is false.
  When the thread finds no session bus before the caller reaches line 73, its
  \<^verbatim>\<open>except\<close> branch clears the flag first and line 73 raises it afterwards: \<^verbatim>\<open>start()\<close>
  returns true and leaves the flag true over a thread that has ended. Had the flag been
  raised before the thread was started, it would be false here.
\<close>

theorem start_spawns_before_flag:
  "is_alive (fst (start_spawn Ok Ok (init ''<f12>'' None None))) 0 \<and>
   \<not> is_running (self (fst (start_spawn Ok Ok (init ''<f12>'' None None)))) \<and>
   snd (start Ok Ok [Fails (Exception ''no session bus'')] (init ''<f12>'' None None)) =
     Returned True \<and>
   is_running (self (fst (start Ok Ok [Fails (Exception ''no session bus'')]
     (init ''<f12>'' None None)))) \<and>
   \<not> is_alive (fst (start Ok Ok [Fails (Exception ''no session bus'')]
     (init ''<f12>'' None None))) 0 \<and>
   stdout (fst (start Ok Ok [Fails (Exception ''no session bus'')] (init ''<f12>'' None None))) =
     [''Global shortcuts initialized with key: <f12>'',
      ''Using D-Bus for shortcut handling'',
      ''Error in D-Bus loop: no session bus'',
      ''Global shortcuts started, listening for <f12> via D-Bus'']"
  by (simp add: model_defs)

subsection \<open>C3: get_status\<close>

text \<open>
  C3, as the code has it. In every state of the controller, that is every state reached
  from its construction, \<^verbatim>\<open>get_status()\<close> gives a dict with exactly the keys
  \<^verbatim>\<open>is_running\<close> (the flag, a boolean), \<^verbatim>\<open>is_active\<close> (the value of \<^verbatim>\<open>is_active()\<close>, a
  boolean), \<^verbatim>\<open>primary_key\<close> (the label) and \<^verbatim>\<open>method\<close>, which is the constant string
  \<^verbatim>\<open>dbus\<close> whatever the state.
\<close>

theorem get_status_shape:
  "map fst (get_status (run (init key cb dp) evs)) =
     [''is_running'', ''is_active'', ''primary_key'', ''method''] \<and>
   map_of (get_status (run (init key cb dp) evs)) ''is_running'' =
     Some (PyBool (is_running (self (run (init key cb dp) evs)))) \<and>
   (\<exists>b. map_of (get_status (run (init key cb dp) evs)) ''is_active'' = Some (PyBool b) \<and>
        is_active (run (init key cb dp) evs) = PyBool b) \<and>
   map_of (get_status (run (init key cb dp) evs)) ''primary_key'' =
     Some (PyStr (primary_key (self (run (init key cb dp) evs)))) \<and>
   map_of (get_status (run (init key cb dp) evs)) ''method'' = Some (PyStr ''dbus'')"
proof -
  have "running_has_thread (run (init key cb dp) evs)"
    by (rule rht_run [OF rht_init])
  then have "\<exists>b. is_active (run (init key cb dp) evs) = PyBool b"
    by (auto simp: is_active_def running_has_thread_def split: option.splits)
  then show ?thesis
    by (auto simp: get_status_def)
qed

theorem get_status_shape_witness:
  "get_status (run (init ''SUPER+D'' None None) [CallStart Ok Ok []]) =
     [(''is_running'', PyBool True), (''is_active'', PyBool True),
      (''primary_key'', PyStr ''SUPER+D''), (''method'', PyStr ''dbus'')]"
  using get_status_shape [of "''SUPER+D''" None None "[CallStart Ok Ok []]"]
  by (simp add: model_defs)

text \<open>On a fresh controller the constant is \<^verbatim>\<open>dbus\<close>, not \<^verbatim>\<open>bus-ipc\<close>.\<close>

theorem get_status_method_is_dbus:
  "map_of (get_status (init ''<f12>'' None None)) ''method'' = Some (PyStr ''dbus'') \<and>
   map_of (get_status (init ''<f12>'' None None)) ''method'' \<noteq> Some (PyStr ''bus-ipc'')"
  by (simp add: model_defs)

subsection \<open>C4: the service and the controller's handler\<close>

text \<open>
  C4, as the code has it. Nothing in the module synchronises the threads.
  \<^verbatim>\<open>set_callback(h)\<close> sets the controller's callback to \<^verbatim>\<open>h\<close> and, at once, the handler of
  the one service object that \<^verbatim>\<open>self.dbus_service\<close> refers to, if there is one; every other
  service object keeps its handler, also one that an earlier thread has published.
  In every state reached from the construction of the controller by a history in which
  \<^verbatim>\<open>set_callback\<close> is never called while a loop thread stands between the two points of
  line 52 (it has read \<^verbatim>\<open>self.callback\<close> and has not stored \<^verbatim>\<open>self.dbus_service\<close> yet),
  the service object that \<^verbatim>\<open>self.dbus_service\<close> refers to exists and holds the controller's
  callback.
\<close>

theorem service_handler_consistent:
  "(race_free (init key cb dp) evs \<longrightarrow> service_consistent (run (init key cb dp) evs)) \<and>
   callback (self (set_callback h (run (init key cb dp) evs))) = h \<and>
   (\<forall>sid. dbus_service (self (set_callback h (run (init key cb dp) evs))) = Some sid \<longrightarrow>
      sid < length (services (set_callback h (run (init key cb dp) evs))) \<and>
      handler (services (set_callback h (run (init key cb dp) evs)) ! sid) = h) \<and>
   (\<forall>sid. dbus_service (self (run (init key cb dp) evs)) \<noteq> Some sid \<longrightarrow>
      services (set_callback h (run (init key cb dp) evs)) ! sid =
        services (run (init key cb dp) evs) ! sid)"
proof -
  let ?w = "run (init key cb dp) evs"
  have fresh: "service_consistent ?w" if "race_free (init key cb dp) evs"
    using hf_run [OF hf_init that] by (simp add: handlers_fresh_def)
  have valid: "refs_valid ?w"
    by (rule rv_run [OF rv_init])
  have cb: "callback (self (set_callback h ?w)) = h"
    by (simp add: set_callback_def Let_def split: option.splits)
  have referred: "sid < length (services (set_callback h ?w)) \<and>
      handler (services (set_callback h ?w) ! sid) = h"
    if "dbus_service (self (set_callback h ?w)) = Some sid" for sid
    using that valid
    by (auto simp: set_callback_def refs_valid_def Let_def split: option.splits)
  have others: "services (set_callback h ?w) ! sid = services ?w ! sid"
    if "dbus_service (self ?w) \<noteq> Some sid" for sid
    using that by (auto simp: set_callback_def Let_def split: option.splits)
  show ?thesis
    using fresh cb referred others by blast
qed

text \<open>
  The thread has stored and published its service, made with the first handler;
  \<^verbatim>\<open>set_callback\<close> with a second handler changes the object in the store.
\<close>

theorem service_handler_consistent_witness:
  "race_free (init ''<f12>'' (Some (Callable 1 True)) None) [CallStart Ok Ok [], ThreadStep 0 Ok, ThreadStep 0 Ok, ThreadStep 0 Ok, ThreadStep 0 Ok] \<and>
   service_consistent (run (init ''<f12>'' (Some (Callable 1 True)) None)
      [CallStart Ok Ok [], ThreadStep 0 Ok, ThreadStep 0 Ok, ThreadStep 0 Ok, ThreadStep 0 Ok]) \<and>
   dbus_service (self (run (init ''<f12>'' (Some (Callable 1 True)) None)
      [CallStart Ok Ok [], ThreadStep 0 Ok, ThreadStep 0 Ok, ThreadStep 0 Ok, ThreadStep 0 Ok])) = Some 0 \<and>
   handler (services (run (init ''<f12>'' (Some (Callable 1 True)) None)
      [CallStart Ok Ok [], ThreadStep 0 Ok, ThreadStep 0 Ok, ThreadStep 0 Ok, ThreadStep 0 Ok]) ! 0) = Some (Callable 1 True) \<and>
   handler (services (set_callback (Some (Callable 2 True)) (run (init ''<f12>'' (Some (Callable 1 True)) None)
      [CallStart Ok Ok [], ThreadStep 0 Ok, ThreadStep 0 Ok, ThreadStep 0 Ok, ThreadStep 0 Ok])) ! 0) = Some (Callable 2 True)"
  using service_handler_consistent [of "''<f12>''" "Some (Callable 1 True)" None
      "[CallStart Ok Ok [], ThreadStep 0 Ok, ThreadStep 0 Ok, ThreadStep 0 Ok, ThreadStep 0 Ok]" "Some (Callable 2 True)"]
  by (simp add: model_defs service_consistent_def)

text \<open>
  Two histories. In the first, \<^verbatim>\<open>set_callback\<close> with a second handler runs after the
  thread has read \<^verbatim>\<open>self.callback\<close> on line 52 and before it stores \<^verbatim>\<open>self.dbus_service\<close>,
  so it finds no service to update: the service is stored and published with the first
  handler, the controller has the second, and a \<^verbatim>\<open>Trigger\<close> runs the first.
  In the second, the controller is stopped and started again: the new thread makes a
  second service object, \<^verbatim>\<open>set_callback\<close> updates that one, and the object published by the
  first thread still holds the first handler.
\<close>

theorem service_holds_stale_handler:
  "dbus_service (self (run (init ''<f12>'' (Some (Callable 1 True)) None)
      [CallStart Ok Ok [], ThreadStep 0 Ok, ThreadStep 0 Ok,
       CallSetCallback (Some (Callable 2 True)), ThreadStep 0 Ok, ThreadStep 0 Ok])) = Some 0 \<and>
   published (run (init ''<f12>'' (Some (Callable 1 True)) None)
      [CallStart Ok Ok [], ThreadStep 0 Ok, ThreadStep 0 Ok,
       CallSetCallback (Some (Callable 2 True)), ThreadStep 0 Ok, ThreadStep 0 Ok]) = [0] \<and>
   handler (services (run (init ''<f12>'' (Some (Callable 1 True)) None)
      [CallStart Ok Ok [], ThreadStep 0 Ok, ThreadStep 0 Ok,
       CallSetCallback (Some (Callable 2 True)), ThreadStep 0 Ok, ThreadStep 0 Ok]) ! 0) = Some (Callable 1 True) \<and>
   callback (self (run (init ''<f12>'' (Some (Callable 1 True)) None)
      [CallStart Ok Ok [], ThreadStep 0 Ok, ThreadStep 0 Ok,
       CallSetCallback (Some (Callable 2 True)), ThreadStep 0 Ok, ThreadStep 0 Ok])) = Some (Callable 2 True) \<and>
   \<not> service_consistent (run (init ''<f12>'' (Some (Callable 1 True)) None)
      [CallStart Ok Ok [], ThreadStep 0 Ok, ThreadStep 0 Ok,
       CallSetCallback (Some (Callable 2 True)), ThreadStep 0 Ok, ThreadStep 0 Ok]) \<and>
   target (last (threads (fst (Trigger Ok Ok (services (run (init ''<f12>'' (Some (Callable 1 True)) None)
      [CallStart Ok Ok [], ThreadStep 0 Ok, ThreadStep 0 Ok,
       CallSetCallback (Some (Callable 2 True)), ThreadStep 0 Ok, ThreadStep 0 Ok]) ! 0) (run (init ''<f12>'' (Some (Callable 1 True)) None)
      [CallStart Ok Ok [], ThreadStep 0 Ok, ThreadStep 0 Ok,
       CallSetCallback (Some (Callable 2 True)), ThreadStep 0 Ok, ThreadStep 0 Ok]))))) =
     Handler (Callable 1 True) \<and>
   dbus_service (self (run (init ''<f12>'' (Some (Callable 1 True)) None)
      [CallStart Ok Ok [], ThreadStep 0 Ok, ThreadStep 0 Ok, ThreadStep 0 Ok, ThreadStep 0 Ok,
       ThreadStep 0 Ok, ThreadStep 0 Ok, CallStop Ok (JoinReturns [Ok]),
       CallStart Ok Ok [], ThreadStep 1 Ok, ThreadStep 1 Ok, ThreadStep 1 Ok,
       CallSetCallback (Some (Callable 2 True))])) = Some 1 \<and>
   callback (self (run (init ''<f12>'' (Some (Callable 1 True)) None)
      [CallStart Ok Ok [], ThreadStep 0 Ok, ThreadStep 0 Ok, ThreadStep 0 Ok, ThreadStep 0 Ok,
       ThreadStep 0 Ok, ThreadStep 0 Ok, CallStop Ok (JoinReturns [Ok]),
       CallStart Ok Ok [], ThreadStep 1 Ok, ThreadStep 1 Ok, ThreadStep 1 Ok,
       CallSetCallback (Some (Callable 2 True))])) = Some (Callable 2 True) \<and>
   handler (services (run (init ''<f12>'' (Some (Callable 1 True)) None)
      [CallStart Ok Ok [], ThreadStep 0 Ok, ThreadStep 0 Ok, ThreadStep 0 Ok, ThreadStep 0 Ok,
       ThreadStep 0 Ok, ThreadStep 0 Ok, CallStop Ok (JoinReturns [Ok]),
       CallStart Ok Ok [], ThreadStep 1 Ok, ThreadStep 1 Ok, ThreadStep 1 Ok,
       CallSetCallback (Some (Callable 2 True))]) ! 1) = Some (Callable 2 True) \<and>
   published (run (init ''<f12>'' (Some (Callable 1 True)) None)
      [CallStart Ok Ok [], ThreadStep 0 Ok, ThreadStep 0 Ok, ThreadStep 0 Ok, ThreadStep 0 Ok,
       ThreadStep 0 Ok, ThreadStep 0 Ok, CallStop Ok (JoinReturns [Ok]),
       CallStart Ok Ok [], ThreadStep 1 Ok, ThreadStep 1 Ok, ThreadStep 1 Ok,
       CallSetCallback (Some (Callable 2 True))]) = [0] \<and>
   handler (services (run (init ''<f12>'' (Some (Callable 1 True)) None)
      [CallStart Ok Ok [], ThreadStep 0 Ok, ThreadStep 0 Ok, ThreadStep 0 Ok, ThreadStep 0 Ok,
       ThreadStep 0 Ok, ThreadStep 0 Ok, CallStop Ok (JoinReturns [Ok]),
       CallStart Ok Ok [], ThreadStep 1 Ok, ThreadStep 1 Ok, ThreadStep 1 Ok,
       CallSetCallback (Some (Callable 2 True))]) ! 0) = Some (Callable 1 True)"
  by (simp add: model_defs service_consistent_def)

subsection \<open>C5: Trigger with a handler\<close>




subsection \<open>C6: Trigger without a handler\<close>

text \<open>
  C6. When \<^verbatim>\<open>Trigger()\<close> is called on a service whose handler is \<^verbatim>\<open>None\<close>, the call returns
  normally whatever the thread library would do, and the state after it is the state
  before it with one more line printed: no thread is made and no field changes.
\<close>

theorem trigger_without_handler:
  "handler svc = None \<Longrightarrow>
   Trigger created started svc w =
     (w\<lparr>stdout := stdout w @ [''D-Bus trigger received'']\<rparr>, Returned ())"
  by (simp add: Trigger_def print_def)

theorem trigger_without_handler_witness:
  "handler \<lparr>handler = None\<rparr> = None \<and>
   snd (Trigger Ok Ok \<lparr>handler = None\<rparr> (init ''<f12>'' None None)) = Returned () \<and>
   threads (fst (Trigger Ok Ok \<lparr>handler = None\<rparr> (init ''<f12>'' None None))) = [] \<and>
   self (fst (Trigger Ok Ok \<lparr>handler = None\<rparr> (init ''<f12>'' None None))) =
     self (init ''<f12>'' None None)"
  using trigger_without_handler [of "\<lparr>handler = None\<rparr>" Ok Ok "init ''<f12>'' None None"]
  by (simp add: init_def)

subsection \<open>C7: start on a running controller\<close>

text \<open>
  C7. On a controller that is running, \<^verbatim>\<open>start()\<close> returns true and the whole state of
  the process is as before: no thread is made, nothing is published, no field changes.
\<close>

theorem start_when_running:
  "is_running (self w) \<Longrightarrow> start created started early w = (w, Returned True)"
  by (simp add: start_def)

theorem start_when_running_witness:
  "is_running (self (fst (start Ok Ok [] (init ''<f12>'' None None)))) \<and>
   start Ok Ok [] (fst (start Ok Ok [] (init ''<f12>'' None None))) =
     (fst (start Ok Ok [] (init ''<f12>'' None None)), Returned True) \<and>
   length (threads (fst (start Ok Ok [] (fst (start Ok Ok [] (init ''<f12>'' None None)))))) = 1"
  using start_when_running [of "fst (start Ok Ok [] (init ''<f12>'' None None))" Ok Ok "[]"]
  by (simp add: model_defs)

subsection \<open>C8: is_active\<close>

text \<open>
  C8. In every state, \<^verbatim>\<open>is_active()\<close> gives back \<^verbatim>\<open>True\<close> if and only if the running flag
  is true and there is a thread object that reports itself alive; when the flag is false
  it gives back \<^verbatim>\<open>False\<close>.
\<close>

theorem is_active_iff:
  "(is_active w = PyBool True) =
     (is_running (self w) \<and> (\<exists>tid. listener_thread (self w) = Some tid \<and> is_alive w tid)) \<and>
   (\<not> is_running (self w) \<longrightarrow> is_active w = PyBool False)"
  by (auto simp: is_active_def split: option.splits)

theorem is_active_iff_witness:
  "\<not> is_running (self (init ''<f12>'' None None)) \<and>
   is_active (init ''<f12>'' None None) = PyBool False"
  using is_active_iff [of "init ''<f12>'' None None"]
  by (simp add: init_def)

subsection \<open>C9: update_shortcut\<close>

text \<open>
  C9. For every label and every state, \<^verbatim>\<open>update_shortcut(new_key)\<close> returns true and
  sets the label, which \<^verbatim>\<open>get_status()\<close> then reports under \<^verbatim>\<open>primary_key\<close>; the callback,
  the running flag, the thread, the loop and the service of the controller, and the
  objects of the store, are as before.
\<close>

theorem update_shortcut_frame:
  "snd (update_shortcut new_key w) = True \<and>
   self (fst (update_shortcut new_key w)) = (self w)\<lparr>primary_key := new_key\<rparr> \<and>
   primary_key (self (fst (update_shortcut new_key w))) = new_key \<and>
   map_of (get_status (fst (update_shortcut new_key w))) ''primary_key'' = Some (PyStr new_key) \<and>
   callback (self (fst (update_shortcut new_key w))) = callback (self w) \<and>
   is_running (self (fst (update_shortcut new_key w))) = is_running (self w) \<and>
   listener_thread (self (fst (update_shortcut new_key w))) = listener_thread (self w) \<and>
   dbus_loop (self (fst (update_shortcut new_key w))) = dbus_loop (self w) \<and>
   dbus_service (self (fst (update_shortcut new_key w))) = dbus_service (self w) \<and>
   services (fst (update_shortcut new_key w)) = services w \<and>
   threads (fst (update_shortcut new_key w)) = threads w \<and>
   loops (fst (update_shortcut new_key w)) = loops w"
  by (simp add: update_shortcut_def get_status_def print_def)

subsection \<open>C10: a raised flag has a thread object\<close>

text \<open>
  C10. In every state reached from the construction of the controller by method calls,
  steps of the threads and \<^verbatim>\<open>Trigger\<close> calls, the thread reference is not \<^verbatim>\<open>None\<close> when the
  running flag is true; so \<^verbatim>\<open>is_active()\<close> gives back a boolean there, never \<^verbatim>\<open>None\<close>.
\<close>

theorem running_implies_thread:
  "running_has_thread (run (init key cb dp) evs) \<and>
   (\<exists>b. is_active (run (init key cb dp) evs) = PyBool b)"
proof -
  have "running_has_thread (run (init key cb dp) evs)"
    by (rule rht_run [OF rht_init])
  then show ?thesis
    by (auto simp: is_active_def running_has_thread_def split: option.splits)
qed

theorem running_implies_thread_witness:
  "is_running (self (run (init ''<f12>'' None None) [CallStart Ok Ok []])) \<and>
   listener_thread (self (run (init ''<f12>'' None None) [CallStart Ok Ok []])) = Some 0 \<and>
   running_has_thread (run (init ''<f12>'' None None) [CallStart Ok Ok []]) \<and>
   is_active (run (init ''<f12>'' None None) [CallStart Ok Ok []]) = PyBool True"
  using running_implies_thread [of "''<f12>''" None None "[CallStart Ok Ok []]"]
  by (simp add: model_defs running_has_thread_def)

end
